theory Spec2Isabelle
  imports Main
begin

section \<open>JavaScript values as the server handles them\<close>

text \<open>
  The server (\<^verbatim>\<open>src/server.js\<close>) keeps its orders in a JSON file, reads request bodies
  parsed by \<^verbatim>\<open>express.json()\<close> and answers with \<^verbatim>\<open>res.json\<close>. Every value
  it stores, receives or sends is therefore a JSON value. Conventions of the embedding:

  \<^item> a JSON number is an unbounded integer (\<open>JNum\<close>); fractions and the rounding of IEEE
    doubles are outside the model;
  \<^item> a string is a list of 8-bit characters; the white space that \<^verbatim>\<open>parseInt\<close> skips
    is the ASCII one;
  \<^item> \<open>JObj kvs\<close> is the object whose own enumerable properties, in enumeration order,
    are \<open>kvs\<close>; reading a property is \<open>map_of kvs\<close>. Properties inherited from
    \<^verbatim>\<open>Object.prototype\<close> are outside the model;
  \<^item> \<^verbatim>\<open>undefined\<close> is \<open>None\<close> of \<open>json option\<close>, \<^verbatim>\<open>NaN\<close> is a value of
    \<open>number\<close> only: neither occurs inside JSON data;
  \<^item> a thrown \<^verbatim>\<open>TypeError\<close> (Express answers 500 and nothing is saved) and the 404
    answer are the two values of \<open>error\<close>; a handler returns \<open>error + result\<close>.
\<close>

datatype json =
    JNull
  | JBool bool
  | JNum int
  | JStr string
  | JArr "json list"
  | JObj "(string \<times> json) list"

datatype number = NaN | Finite int

datatype error = TypeError | OrderNotFound

type_synonym obj = "(string \<times> json) list"

subsection \<open>Sequencing computations that may throw\<close>

definition ebind :: "error + 'a \<Rightarrow> ('a \<Rightarrow> error + 'b) \<Rightarrow> error + 'b" where
  "ebind m f = (case m of Inl e \<Rightarrow> Inl e | Inr v \<Rightarrow> f v)"



subsection \<open>Truthiness and property reads\<close>




subsection \<open>Numbers and strings\<close>

definition is_digit :: "char \<Rightarrow> bool" where
  "is_digit c = (48 \<le> (of_char c :: nat) \<and> (of_char c :: nat) \<le> 57)"

definition digit_value :: "char \<Rightarrow> int" where
  "digit_value c = of_char c - 48"

definition digit_char :: "nat \<Rightarrow> char" where
  "digit_char d = char_of (48 + d)"

definition is_space :: "char \<Rightarrow> bool" where
  "is_space c = ((of_char c :: nat) \<in> {9, 10, 11, 12, 13, 32})"

definition digits_value :: "string \<Rightarrow> int" where
  "digits_value ds = foldl (\<lambda>a c. 10 * a + digit_value c) 0 ds"

fun show_nat :: "nat \<Rightarrow> string" where
  "show_nat n = (if n < 10 then [digit_char n] else show_nat (n div 10) @ [digit_char (n mod 10)])"

declare show_nat.simps [simp del]

definition show_int :: "int \<Rightarrow> string" where
  "show_int i = (if i < 0 then CHR ''-'' # show_nat (nat (- i)) else show_nat (nat i))"


text \<open>\<^verbatim>\<open>Math.max(a, b)\<close>: \<^verbatim>\<open>NaN\<close> as soon as one argument is.\<close>

fun js_max :: "number \<Rightarrow> number \<Rightarrow> number" where
  "js_max (Finite a) (Finite b) = Finite (max a b)"
| "js_max a b = NaN"


text \<open>
  \<^verbatim>\<open>parseInt(s, 10)\<close> on a string: leading white space is skipped, one sign is read, then
  the longest run of decimal digits; no digit at all gives \<^verbatim>\<open>NaN\<close>.
\<close>

definition parseInt_string :: "string \<Rightarrow> number" where
  "parseInt_string s =
     (let t = dropWhile is_space s;
          neg = (t \<noteq> [] \<and> hd t = CHR ''-'');
          u = (if t \<noteq> [] \<and> (hd t = CHR ''-'' \<or> hd t = CHR ''+'') then tl t else t);
          ds = takeWhile is_digit u
      in if ds = [] then NaN
         else Finite (if neg then - digits_value ds else digits_value ds))"





subsection \<open>Objects\<close>

text \<open>
  The own properties of an object are enumerated with the array indices first, in ascending
  numeric order, then the other string keys in the order of their creation. An array index
  is the canonical decimal spelling of a number below \<open>2\<^sup>3\<^sup>2 - 1\<close>.
\<close>

definition array_index :: "string \<Rightarrow> int option" where
  "array_index k =
     (if k \<noteq> [] \<and> list_all is_digit k \<and> show_int (digits_value k) = k
         \<and> digits_value k < 4294967295
      then Some (digits_value k) else None)"

fun insert_index :: "int \<Rightarrow> string \<times> 'a \<Rightarrow> (string \<times> 'a) list \<Rightarrow> (string \<times> 'a) list" where
  "insert_index i kv [] = [kv]"
| "insert_index i kv (p # ps) =
     (case array_index (fst p) of
        Some j \<Rightarrow> if j < i then p # insert_index i kv ps else kv # p # ps
      | None \<Rightarrow> kv # p # ps)"

text \<open>
  \<^verbatim>\<open>o[k] = v\<close>, and a property \<^verbatim>\<open>k: v\<close> of an object literal after a spread: an existing
  property keeps its place and takes the new value, a new one is created.
\<close>

definition obj_set :: "(string \<times> 'a) list \<Rightarrow> string \<Rightarrow> 'a \<Rightarrow> (string \<times> 'a) list" where
  "obj_set kvs k v =
     (if k \<in> fst ` set kvs then map (\<lambda>p. if fst p = k then (k, v) else p) kvs
      else case array_index k of
             Some i \<Rightarrow> insert_index i (k, v) kvs
           | None \<Rightarrow> kvs @ [(k, v)])"

text \<open>
  What a spread \<^verbatim>\<open>...v\<close> inside an object literal copies: the own enumerable properties
  of an object, the elements of an array and the characters of a string under their
  indices, nothing from \<^verbatim>\<open>null\<close>, a boolean or a number.
\<close>

fun own_props :: "json \<Rightarrow> obj" where
  "own_props (JObj kvs) = kvs"
| "own_props (JArr xs) = zip (map show_nat [0..<length xs]) xs"
| "own_props (JStr s) = zip (map show_nat [0..<length s]) (map (\<lambda>c. JStr [c]) s)"
| "own_props v = []"

text \<open>\<^verbatim>\<open>{ ...a, ...b }\<close> where \<open>a\<close> is an object: the properties of \<open>b\<close> are set one by one.\<close>

definition spread :: "obj \<Rightarrow> obj \<Rightarrow> obj" where
  "spread a b = fold (\<lambda>p acc. obj_set acc (fst p) (snd p)) b a"






section \<open>The handlers\<close>

text \<open>
  The order collection is what \<^verbatim>\<open>loadOrders\<close> returns: the array of order objects of
  \<^verbatim>\<open>orders.json\<close>. Each handler takes it and returns the collection it saves together
  with the body of its answer.
\<close>

type_synonym store = "obj list"

subsection \<open>\<^verbatim>\<open>POST /orders\<close>\<close>













subsection \<open>\<^verbatim>\<open>PUT /orders/:orderId\<close> and \<^verbatim>\<open>DELETE /orders/:orderId\<close>\<close>

text \<open>\<^verbatim>\<open>orders.findIndex(o => o.order_id === orderId)\<close>; \<open>None\<close> stands for \<open>-1\<close>.\<close>

fun findIndex :: "('a \<Rightarrow> bool) \<Rightarrow> 'a list \<Rightarrow> nat option" where
  "findIndex P [] = None"
| "findIndex P (x # xs) = (if P x then Some 0 else map_option Suc (findIndex P xs))"

definition has_id :: "string \<Rightarrow> obj \<Rightarrow> bool" where
  "has_id orderId order = (map_of order ''order_id'' = Some (JStr orderId))"

text \<open>Lines 115 to 124.\<close>

definition put_order :: "store \<Rightarrow> string \<Rightarrow> json \<Rightarrow> error + store \<times> obj" where
  "put_order orders orderId body =
     (case findIndex (has_id orderId) orders of
        None \<Rightarrow> Inl OrderNotFound
      | Some index \<Rightarrow>
          let merged = spread (orders ! index) (own_props body)
          in Inr (orders[index := merged], merged))"


subsection \<open>\<^verbatim>\<open>GET /picking\<close>\<close>







subsection \<open>\<^verbatim>\<open>GET /packing\<close>\<close>




subsection \<open>Sequences of requests\<close>




section \<open>Notions used in the statements\<close>

subsection \<open>Order identifiers\<close>





subsection \<open>Line-item numbers as the specification describes them\<close>







subsection \<open>Numbering the line items of a payload\<close>




subsection \<open>Prices\<close>



subsection \<open>Well-typed orders and line items\<close>







subsection \<open>Occurrences of product names\<close>






text \<open>One more unit of a name in a tally, and the quantity a tally holds for a name.\<close>

definition count_name :: "string \<Rightarrow> (string \<times> int) list \<Rightarrow> (string \<times> int) list" where
  "count_name k agg = obj_set agg k ((case map_of agg k of Some q \<Rightarrow> q | None \<Rightarrow> 0) + 1)"

definition quantity_of :: "(string \<times> int) list \<Rightarrow> string \<Rightarrow> int" where
  "quantity_of agg k = (case map_of agg k of Some q \<Rightarrow> q | None \<Rightarrow> 0)"

subsection \<open>Well-typed mapping entries\<close>




subsection \<open>Sample data\<close>

definition sample_date :: string where
  "sample_date = ''2025-01-01T00:00:00.000Z''"


definition plain_order :: "string \<Rightarrow> obj" where
  "plain_order oid =
     [(''order_id'', JStr oid), (''order_total'', JNum 0), (''order_date'', JStr sample_date),
      (''line_items'', JArr [])]"






definition sample_created :: obj where
  "sample_created =
     [(''order_id'', JStr ''3''), (''order_total'', JNum 12), (''order_date'', JStr sample_date),
      (''customer_name'', JStr ''Ada''),
      (''line_items'', JArr
         [JObj [(''product_id'', JStr ''KIT-1''), (''price'', JNum 5),
                (''line_item_id'', JStr ''LI-6'')],
          JObj [(''line_item_id'', JStr ''X-1''), (''price'', JNum 7)],
          JObj [(''product_id'', JStr ''P-2''), (''line_item_id'', JStr ''LI-7'')]])]"






section \<open>Basic facts\<close>

subsection \<open>Sequencing\<close>

lemma ebind_Inr [simp]: "ebind (Inr v) f = f v"
  by (simp add: ebind_def)

lemma ebind_Inl [simp]: "ebind (Inl e) f = Inl e"
  by (simp add: ebind_def)



subsection \<open>Decimal strings\<close>

lemma of_char_digit_char: "d < 10 \<Longrightarrow> (of_char (digit_char d) :: nat) = 48 + d"
  by (simp add: digit_char_def)

lemma is_digit_digit_char: "d < 10 \<Longrightarrow> is_digit (digit_char d)"
  by (simp add: is_digit_def of_char_digit_char)

lemma digit_value_digit_char: "d < 10 \<Longrightarrow> digit_value (digit_char d) = int d"
proof -
  assume d: "d < 10"
  have "(of_char (digit_char d) :: int) = int (of_char (digit_char d))"
    by (simp add: of_nat_of_char)
  then show ?thesis using d by (simp add: digit_value_def of_char_digit_char)
qed

lemma not_space_digit_char: "d < 10 \<Longrightarrow> \<not> is_space (digit_char d)"
  by (auto simp add: is_space_def of_char_digit_char)

lemma digit_char_not_sign: "d < 10 \<Longrightarrow> digit_char d \<noteq> CHR ''-'' \<and> digit_char d \<noteq> CHR ''+''"
proof -
  assume d: "d < 10"
  have "(of_char (digit_char d) :: nat) \<noteq> of_char (CHR ''-'')"
    and "(of_char (digit_char d) :: nat) \<noteq> of_char (CHR ''+'')"
    using d by (simp_all add: of_char_digit_char)
  then show ?thesis by auto
qed

lemma show_nat_nonempty: "show_nat n \<noteq> []"
  by (subst show_nat.simps) simp

lemma show_nat_digits: "list_all is_digit (show_nat n)"
proof (induction n rule: show_nat.induct)
  case (1 n)
  show ?case
  proof (cases "n < 10")
    case True
    then show ?thesis by (subst show_nat.simps) (simp add: is_digit_digit_char)
  next
    case False
    with 1 show ?thesis by (subst show_nat.simps) (simp add: is_digit_digit_char)
  qed
qed

lemma digits_value_snoc: "digits_value (ds @ [c]) = 10 * digits_value ds + digit_value c"
  by (simp add: digits_value_def)

lemma digits_value_show_nat: "digits_value (show_nat n) = int n"
proof (induction n rule: show_nat.induct)
  case (1 n)
  show ?case
  proof (cases "n < 10")
    case True
    then show ?thesis
      by (subst show_nat.simps) (simp add: digits_value_def digit_value_digit_char)
  next
    case False
    then have "digits_value (show_nat n) = 10 * int (n div 10) + int (n mod 10)"
      using 1 by (subst show_nat.simps) (simp add: digits_value_snoc digit_value_digit_char)
    then show ?thesis by (simp add: zdiv_int zmod_int)
  qed
qed

lemma hd_show_nat: "\<exists>d<10. hd (show_nat n) = digit_char d"
proof (induction n rule: show_nat.induct)
  case (1 n)
  show ?case
  proof (cases "n < 10")
    case True
    then show ?thesis by (subst show_nat.simps) auto
  next
    case False
    with 1 show ?thesis by (subst show_nat.simps) (simp add: show_nat_nonempty)
  qed
qed

lemma takeWhile_all: "list_all P xs \<Longrightarrow> takeWhile P xs = xs"
  by (induction xs) simp_all

lemma parseInt_string_show_nat: "parseInt_string (show_nat n) = Finite (int n)"
proof -
  obtain c cs where cs: "show_nat n = c # cs"
    using show_nat_nonempty [of n] by (cases "show_nat n") auto
  obtain d where d: "d < 10" "c = digit_char d"
    using hd_show_nat [of n] cs by auto
  have ns: "\<not> is_space c" and sg: "c \<noteq> CHR ''-''" "c \<noteq> CHR ''+''"
    using d not_space_digit_char digit_char_not_sign by auto
  have tw: "takeWhile is_digit (c # cs) = c # cs"
    using takeWhile_all [OF show_nat_digits [of n]] cs by simp
  have "digits_value (c # cs) = int n"
    using digits_value_show_nat [of n] cs by simp
  then show ?thesis
    using ns sg tw by (simp add: parseInt_string_def cs Let_def)
qed

lemma parseInt_string_show_int: "parseInt_string (show_int i) = Finite i"
proof (cases "i < 0")
  case False
  then show ?thesis by (simp add: show_int_def parseInt_string_show_nat)
next
  case True
  have sp: "\<not> is_space CHR ''-''" by (simp add: is_space_def)
  have tw: "takeWhile is_digit (show_nat (nat (- i))) = show_nat (nat (- i))"
    by (rule takeWhile_all [OF show_nat_digits])
  show ?thesis
    using True sp show_nat_nonempty [of "nat (- i)"]
    by (simp add: show_int_def parseInt_string_def Let_def tw digits_value_show_nat)
qed

lemma show_int_inj: "show_int i = show_int j \<Longrightarrow> i = j"
  by (metis parseInt_string_show_int number.inject)

subsection \<open>Objects and lookups\<close>

lemma map_of_replace:
  "map_of (map (\<lambda>p. if fst p = k then (k, v) else p) kvs) k' =
     (if k' = k then map_option (\<lambda>u. v) (map_of kvs k) else map_of kvs k')"
  by (induction kvs) auto

lemma keys_replace: "map fst (map (\<lambda>p. if fst p = k then (k, v) else p) kvs) = map fst kvs"
  by (induction kvs) auto

lemma map_of_insert_index:
  "map_of kvs k = None \<Longrightarrow>
   map_of (insert_index i (k, v) kvs) k' = (if k' = k then Some v else map_of kvs k')"
  by (induction kvs) (auto split: option.splits if_splits)

lemma map_of_append_new:
  "map_of kvs k = None \<Longrightarrow>
   map_of (kvs @ [(k, v)]) k' = (if k' = k then Some v else map_of kvs k')"
  by (auto simp add: map_add_def split: option.splits)

lemma map_of_obj_set:
  "map_of (obj_set kvs k v) k' = (if k' = k then Some v else map_of kvs k')"
proof (cases "map_of kvs k")
  case None
  then have "k \<notin> fst ` set kvs" by (simp add: map_of_eq_None_iff)
  with None show ?thesis
    by (simp add: obj_set_def map_of_insert_index map_add_def split: option.splits)
next
  case (Some u)
  then have "k \<in> fst ` set kvs" by (metis map_of_eq_None_iff option.distinct(1))
  with Some show ?thesis by (simp add: obj_set_def map_of_replace)
qed

lemma set_insert_index: "set (insert_index i kv kvs) = insert kv (set kvs)"
  by (induction kvs) (auto split: option.splits)

lemma keys_obj_set: "fst ` set (obj_set kvs k v) = insert k (fst ` set kvs)"
proof (cases "k \<in> fst ` set kvs")
  case True
  have "set (map fst (obj_set kvs k v)) = set (map fst kvs)"
    using True by (simp only: obj_set_def if_True keys_replace)
  with True show ?thesis by auto
next
  case False
  then show ?thesis
    by (auto simp add: obj_set_def set_insert_index split: option.splits)
qed

lemma map_of_fold_obj_set_absent:
  "k \<notin> fst ` set b \<Longrightarrow>
   map_of (fold (\<lambda>p acc. obj_set acc (fst p) (snd p)) b a) k = map_of a k"
  by (induction b arbitrary: a) (auto simp add: map_of_obj_set)

lemma map_of_spread_absent:
  "k \<notin> fst ` set b \<Longrightarrow> map_of (spread a b) k = map_of a k"
  unfolding spread_def by (rule map_of_fold_obj_set_absent)

lemma map_of_fold_obj_set_present:
  "distinct (map fst b) \<Longrightarrow> map_of b k = Some v \<Longrightarrow>
   map_of (fold (\<lambda>p acc. obj_set acc (fst p) (snd p)) b a) k = Some v"
proof (induction b arbitrary: a)
  case Nil
  then show ?case by simp
next
  case (Cons p b)
  show ?case
  proof (cases "fst p = k")
    case True
    with Cons.prems have "k \<notin> fst ` set b" "snd p = v" by auto
    then show ?thesis
      using map_of_fold_obj_set_absent [of k b "obj_set a (fst p) (snd p)"] True
      by (simp add: map_of_obj_set)
  next
    case False
    with Cons show ?thesis by auto
  qed
qed

lemma map_of_spread:
  "distinct (map fst b) \<Longrightarrow>
   map_of (spread a b) k = (case map_of b k of Some v \<Rightarrow> Some v | None \<Rightarrow> map_of a k)"
proof (cases "map_of b k")
  case None
  then have "k \<notin> fst ` set b" by (simp add: map_of_eq_None_iff)
  with None show ?thesis by (simp add: map_of_spread_absent)
next
  case (Some v)
  assume "distinct (map fst b)"
  with Some show ?thesis by (simp add: spread_def map_of_fold_obj_set_present)
qed

lemma findIndex_Some:
  "findIndex P xs = Some i \<Longrightarrow> i < length xs \<and> P (xs ! i) \<and> (\<forall>j<i. \<not> P (xs ! j))"
proof (induction xs arbitrary: i)
  case Nil
  then show ?case by simp
next
  case (Cons x xs)
  show ?case
  proof (cases "P x")
    case True
    with Cons.prems show ?thesis by simp
  next
    case False
    with Cons.prems obtain i' where i': "findIndex P xs = Some i'" "i = Suc i'" by auto
    from Cons.IH [OF i'(1)] False i'(2) show ?thesis
      by (auto simp add: less_Suc_eq_0_disj)
  qed
qed

lemma findIndex_None: "findIndex P xs = None \<longleftrightarrow> (\<forall>x\<in>set xs. \<not> P x)"
  by (induction xs) auto

lemma put_order_Inr:
  assumes "put_order orders orderId body = Inr (orders', merged)"
  obtains index where "findIndex (has_id orderId) orders = Some index"
    "merged = spread (orders ! index) (own_props body)"
    "orders' = orders[index := merged]"
  using assms unfolding put_order_def by (auto simp add: Let_def split: option.splits)


subsection \<open>Creating an order\<close>








lemma js_max_NaN [simp]: "js_max NaN b = NaN" "js_max a NaN = NaN"
  by (cases a, simp_all)






subsection \<open>Identifiers under the three operations\<close>









section \<open>The claims\<close>

subsection \<open>C1: uniqueness of order identifiers\<close>






subsection \<open>C2: the identifier of a created order\<close>




subsection \<open>C3: the global maximum line-item number\<close>
















subsection \<open>C4: numbering the line items of the payload\<close>









subsection \<open>C5: the order total\<close>








subsection \<open>C6: update\<close>

lemma put_order_not_found:
  "put_order orders orderId payload = Inl OrderNotFound
     \<longleftrightarrow> (\<forall>order\<in>set orders. \<not> has_id orderId order)"
proof (cases "findIndex (has_id orderId) orders")
  case None
  then show ?thesis by (simp add: put_order_def findIndex_None [symmetric])
next
  case (Some index)
  then have "findIndex (has_id orderId) orders \<noteq> None" by simp
  then have "\<not> (\<forall>order\<in>set orders. \<not> has_id orderId order)"
    by (simp only: findIndex_None not_False_eq_True)
  with Some show ?thesis by (simp add: put_order_def Let_def)
qed

text \<open>
  C6: an update finds the first order with the given identifier and replaces it by the
  merge: a property of the payload takes the payload's value as a whole (so
  \<^verbatim>\<open>line_items\<close> is replaced, not merged or appended), any other property keeps the
  value it had, and the other orders stay; the answer is \<^verbatim>\<open>OrderNotFound\<close> exactly when
  no stored order has the identifier. The properties of the payload are those of a parsed
  JSON object, hence distinct.
\<close>

theorem update_is_shallow_merge:
  "(put_order orders orderId payload = Inr (updated, merged)
      \<and> distinct (map fst (own_props payload))
    \<longrightarrow> (\<exists>index<length orders.
           has_id orderId (orders ! index)
           \<and> (\<forall>j<index. \<not> has_id orderId (orders ! j))
           \<and> updated = orders[index := merged]
           \<and> (\<forall>k. map_of merged k =
                  (case map_of (own_props payload) k of
                     Some v \<Rightarrow> Some v
                   | None \<Rightarrow> map_of (orders ! index) k))))
   \<and> ((\<forall>order\<in>set orders. \<not> has_id orderId order)
        \<longleftrightarrow> put_order orders orderId payload = Inl OrderNotFound)"
proof (intro conjI impI)
  assume a: "put_order orders orderId payload = Inr (updated, merged)
      \<and> distinct (map fst (own_props payload))"
  then obtain index where i: "findIndex (has_id orderId) orders = Some index"
    "merged = spread (orders ! index) (own_props payload)" "updated = orders[index := merged]"
    by (blast elim: put_order_Inr)
  from a i(2) have "\<forall>k. map_of merged k =
      (case map_of (own_props payload) k of Some v \<Rightarrow> Some v | None \<Rightarrow> map_of (orders ! index) k)"
    by (simp add: map_of_spread)
  with findIndex_Some [OF i(1)] i(3)
  show "\<exists>index<length orders.
           has_id orderId (orders ! index)
           \<and> (\<forall>j<index. \<not> has_id orderId (orders ! j))
           \<and> updated = orders[index := merged]
           \<and> (\<forall>k. map_of merged k =
                  (case map_of (own_props payload) k of
                     Some v \<Rightarrow> Some v
                   | None \<Rightarrow> map_of (orders ! index) k))"
    by blast
next
  show "(\<forall>order\<in>set orders. \<not> has_id orderId order)
        \<longleftrightarrow> put_order orders orderId payload = Inl OrderNotFound"
    by (simp add: put_order_not_found)
qed

text \<open>
  Order 3 of the sample, updated with a new \<^verbatim>\<open>customer_email\<close> and an empty
  \<^verbatim>\<open>line_items\<close>; and an update of an order 9 that does not exist.
\<close>

theorem update_is_shallow_merge_witness:
  "put_order [plain_order ''1'', sample_created] ''3''
       (JObj [(''customer_email'', JStr ''ada@example.org''), (''line_items'', JArr [])])
     = Inr ([plain_order ''1'',
             [(''order_id'', JStr ''3''), (''order_total'', JNum 12),
              (''order_date'', JStr sample_date), (''customer_name'', JStr ''Ada''),
              (''line_items'', JArr []), (''customer_email'', JStr ''ada@example.org'')]],
            [(''order_id'', JStr ''3''), (''order_total'', JNum 12),
             (''order_date'', JStr sample_date), (''customer_name'', JStr ''Ada''),
             (''line_items'', JArr []), (''customer_email'', JStr ''ada@example.org'')])
   \<and> distinct (map fst (own_props
         (JObj [(''customer_email'', JStr ''ada@example.org''), (''line_items'', JArr [])])))
   \<and> (\<exists>index<length [plain_order ''1'', sample_created].
         has_id ''3'' ([plain_order ''1'', sample_created] ! index)
         \<and> (\<forall>j<index. \<not> has_id ''3'' ([plain_order ''1'', sample_created] ! j)))
   \<and> \<not> has_id ''9'' (plain_order ''1'') \<and> \<not> has_id ''9'' sample_created
   \<and> put_order [plain_order ''1'', sample_created] ''9''
       (JObj [(''customer_email'', JStr ''ada@example.org''), (''line_items'', JArr [])])
      = Inl OrderNotFound"
proof -
  let ?payload = "JObj [(''customer_email'', JStr ''ada@example.org''), (''line_items'', JArr [])]"
  let ?merged = "[(''order_id'', JStr ''3''), (''order_total'', JNum 12),
             (''order_date'', JStr sample_date), (''customer_name'', JStr ''Ada''),
             (''line_items'', JArr []), (''customer_email'', JStr ''ada@example.org'')]"
  have put: "put_order [plain_order ''1'', sample_created] ''3'' ?payload
     = Inr ([plain_order ''1'', ?merged], ?merged)"
    by code_simp
  have keys: "distinct (map fst (own_props ?payload))"
    by simp
  have none: "\<forall>order\<in>set [plain_order ''1'', sample_created]. \<not> has_id ''9'' order"
    by (simp add: has_id_def plain_order_def sample_created_def)
  from update_is_shallow_merge
        [of "[plain_order ''1'', sample_created]" "''3''" ?payload "[plain_order ''1'', ?merged]" ?merged]
       put keys
  have found: "\<exists>index<length [plain_order ''1'', sample_created].
         has_id ''3'' ([plain_order ''1'', sample_created] ! index)
         \<and> (\<forall>j<index. \<not> has_id ''3'' ([plain_order ''1'', sample_created] ! j))"
    by blast
  from update_is_shallow_merge [of "[plain_order ''1'', sample_created]" "''9''" ?payload] none
  have missing: "put_order [plain_order ''1'', sample_created] ''9'' ?payload = Inl OrderNotFound"
    by blast
  from none have each: "\<not> has_id ''9'' (plain_order ''1'')" "\<not> has_id ''9'' sample_created"
    by simp_all
  from put keys found each missing show ?thesis by blast
qed

subsection \<open>C7: when creating an order throws\<close>








































subsection \<open>C8: the picking list\<close>








text \<open>The tally of a list of names.\<close>

lemma quantity_of_count_name:
  "quantity_of (count_name k agg) name = quantity_of agg name + (if k = name then 1 else 0)"
  by (simp add: quantity_of_def count_name_def map_of_obj_set)

lemma keys_count_name: "fst ` set (count_name k agg) = insert k (fst ` set agg)"
  by (simp add: count_name_def keys_obj_set)

lemma tally_value:
  "quantity_of (fold count_name names agg) name = quantity_of agg name + int (count_list names name)"
proof (induction names arbitrary: agg)
  case Nil
  then show ?case by simp
next
  case (Cons k names)
  have "quantity_of (fold count_name names (count_name k agg)) name
      = quantity_of (count_name k agg) name + int (count_list names name)"
    by (rule Cons.IH)
  then show ?case by (simp add: quantity_of_count_name)
qed

lemma tally_keys: "fst ` set (fold count_name names agg) = fst ` set agg \<union> set names"
proof (induction names arbitrary: agg)
  case Nil
  then show ?case by simp
next
  case (Cons k names)
  have "fst ` set (fold count_name names (count_name k agg))
      = fst ` set (count_name k agg) \<union> set names"
    by (rule Cons.IH)
  then show ?case by (simp add: keys_count_name)
qed

lemma tally_lookup:
  "map_of (fold count_name names []) name
   = (if name \<in> set names then Some (int (count_list names name)) else None)"
proof (cases "name \<in> set names")
  case True
  then have "name \<in> fst ` set (fold count_name names [])"
    by (simp add: tally_keys)
  then obtain q where q: "map_of (fold count_name names []) name = Some q"
    by (metis map_of_eq_None_iff not_Some_eq)
  with tally_value [of names "[]" name] True show ?thesis by (simp add: quantity_of_def)
next
  case False
  then have "name \<notin> fst ` set (fold count_name names [])"
    by (simp add: tally_keys)
  with False show ?thesis by (simp add: map_of_eq_None_iff)
qed





lemma keys_count_name_plain:
  assumes "array_index k = None"
  shows "map fst (count_name k agg)
     = (if k \<in> set (map fst agg) then map fst agg else map fst agg @ [k])"
proof (cases "k \<in> fst ` set agg")
  case True
  then have "map fst (count_name k agg) = map fst agg"
    by (simp only: count_name_def obj_set_def if_True keys_replace)
  with True show ?thesis by simp
next
  case False
  with assms show ?thesis by (simp add: count_name_def obj_set_def)
qed

lemma tally_order:
  "(\<And>name. name \<in> set names \<Longrightarrow> array_index name = None) \<Longrightarrow>
   map fst (fold count_name names agg)
     = fold (\<lambda>x seen. if x \<in> set seen then seen else seen @ [x]) names (map fst agg)"
proof (induction names arbitrary: agg)
  case Nil
  then show ?case by simp
next
  case (Cons k names)
  have k: "array_index k = None" using Cons.prems by simp
  have "map fst (fold count_name names (count_name k agg))
      = fold (\<lambda>x seen. if x \<in> set seen then seen else seen @ [x]) names
          (map fst (count_name k agg))"
    using Cons.prems by (intro Cons.IH) simp
  then show ?case by (simp add: keys_count_name_plain [OF k])
qed


















subsection \<open>C9: the packing view\<close>





















subsection \<open>C10: the shape of a created order\<close>








end
